theory Spec2Isabelle
  imports Main
begin

section \<open>The agent core of BuddyMCP: \<open>AgentCore/agent_core.py\<close>\<close>

text \<open>
  The program is one function, \<open>main\<close>: it logs and prints a start message and then
  loops for ever; each iteration sleeps for ten seconds and logs a heartbeat inside a
  \<open>try\<close> block whose two handlers catch \<open>KeyboardInterrupt\<close> (log a stopping message and
  \<open>break\<close>) and \<open>Exception\<close> (log the error and sleep for five seconds).

  Everything \<open>main\<close> does is a call into its environment (the logger, standard output,
  the clock), and every such call either returns or raises. Besides, the interpreter
  raises \<open>KeyboardInterrupt\<close> wherever the signal finds the program: inside a call, before
  or after the call has done its work, or in the code of \<open>main\<close> itself, between two calls.
  The environment of a run is therefore a \<^emph>\<open>script\<close>: the list of the outcomes of the calls
  that \<open>main\<close> makes, in the order in which it makes them, each with the interrupt that
  comes with it, if any. A run on a finite script follows the program until the script is
  used up; the program is then still running, blocked in its next call. The script is the
  fuel of the loop.
\<close>

subsection \<open>Exceptions, calls and the world\<close>

text \<open>
  The two classes of exception that the handlers of the loop tell apart. An \<open>Exception\<close>
  carries its message (what \<open>str(e)\<close> yields) and its traceback.
\<close>

datatype exn = KeyboardInterrupt | Exception string "string list"

fun str :: "exn \<Rightarrow> string" where
  "str KeyboardInterrupt = []"
| "str (Exception m tb) = m"

datatype level = INFO | ERROR

text \<open>The calls that \<open>main\<close> makes: \<open>time.sleep\<close>, \<open>logger.info\<close> and \<open>logger.error\<close>, \<open>print\<close>.\<close>

datatype call = Sleep nat | Log level string | Print string

text \<open>
  The outcome of one call.
  \<^item> \<open>Returns\<close>: the call does its work and returns.
  \<^item> \<open>Raises k e\<close>: the call raises \<open>e\<close> after \<open>k\<close> seconds, its work undone. Only a sleep
    takes time; a sleep of \<open>d\<close> seconds that raises has slept for at most \<open>d\<close> seconds.
  \<^item> \<open>Late_interrupt\<close>: the call does its work, and \<open>KeyboardInterrupt\<close> comes out of it all
    the same, the signal having arrived before the call returned. The logger catches
    \<open>Exception\<close> only, so a log call can end like this with its record written.
  \<^item> \<open>Returns_then_interrupt\<close>: the call does its work and returns, and \<open>KeyboardInterrupt\<close>
    is raised in the code of \<open>main\<close> itself, before the next call.
\<close>

datatype outcome = Returns | Raises nat exn | Late_interrupt | Returns_then_interrupt

text \<open>
  The world: the clock in seconds since the start, the outcomes still to come, the records
  written to the log (time, level, message; the log format of the source starts with the
  time), and the trace of all calls made so far, with their arguments.
\<close>

record world =
  clock :: nat
  script :: "outcome list"
  events :: "(nat \<times> level \<times> string) list"
  calls :: "call list"

definition start_world :: "outcome list \<Rightarrow> world" where
  "start_world os = \<lparr>clock = 0, script = os, events = [], calls = []\<rparr>"

fun duration :: "call \<Rightarrow> nat" where
  "duration (Sleep d) = d"
| "duration (Log l m) = 0"
| "duration (Print m) = 0"

text \<open>What a call that returns has done.\<close>

fun effect :: "call \<Rightarrow> world \<Rightarrow> world" where
  "effect (Sleep d) w = w\<lparr>clock := clock w + d\<rparr>"
| "effect (Log l m) w = w\<lparr>events := events w @ [(clock w, l, m)]\<rparr>"
| "effect (Print m) w = w"

text \<open>
  What \<open>main\<close> sees of a call: nothing yet, its return, an exception that comes out of it,
  or its return followed by a \<open>KeyboardInterrupt\<close> raised in \<open>main\<close> itself.
\<close>

datatype reply = Pending | Done | Raised exn | Interrupted

text \<open>
  One call. On an empty script the call is pending and nothing has happened.
\<close>

definition perform :: "call \<Rightarrow> world \<Rightarrow> reply \<times> world" where
  "perform c w = (case script w of
      [] \<Rightarrow> (Pending, w)
    | Returns # rest \<Rightarrow> (Done, effect c (w\<lparr>script := rest, calls := calls w @ [c]\<rparr>))
    | Raises k e # rest \<Rightarrow>
        (Raised e, w\<lparr>script := rest, calls := calls w @ [c],
                      clock := clock w + min k (duration c)\<rparr>)
    | Late_interrupt # rest \<Rightarrow>
        (Raised KeyboardInterrupt, effect c (w\<lparr>script := rest, calls := calls w @ [c]\<rparr>))
    | Returns_then_interrupt # rest \<Rightarrow>
        (Interrupted, effect c (w\<lparr>script := rest, calls := calls w @ [c]\<rparr>)))"

subsection \<open>The loop\<close>

text \<open>
  How a run stands at the end of its script: still running, returned from \<open>main\<close>, or left
  \<open>main\<close> by an exception that no handler caught.
\<close>

datatype status = Running | Returned | Propagated exn

datatype flow = Continue | Stop status

text \<open>
  The handler \<open>except KeyboardInterrupt\<close>: log, then \<open>break\<close>. The handlers are outside the
  \<open>try\<close> block: an exception that comes out of a call of a handler, or that is raised in the
  code of a handler, leaves \<open>main\<close>.
\<close>

definition handle_interrupt :: "world \<Rightarrow> flow \<times> world" where
  "handle_interrupt w = (case perform (Log INFO ''Agent stopping'') w of
      (Pending, w1) \<Rightarrow> (Stop Running, w1)
    | (Raised e1, w1) \<Rightarrow> (Stop (Propagated e1), w1)
    | (Interrupted, w1) \<Rightarrow> (Stop (Propagated KeyboardInterrupt), w1)
    | (Done, w1) \<Rightarrow> (Stop Returned, w1))"

text \<open>
  The handler \<open>except Exception as e\<close>: log the message of \<open>e\<close>, then sleep. Both calls are
  outside the \<open>try\<close> block, so what they raise leaves \<open>main\<close>.
\<close>

definition handle_error :: "nat \<Rightarrow> exn \<Rightarrow> world \<Rightarrow> flow \<times> world" where
  "handle_error backoff e w =
    (case perform (Log ERROR (''Error in agent loop: '' @ str e)) w of
      (Pending, w1) \<Rightarrow> (Stop Running, w1)
    | (Raised e1, w1) \<Rightarrow> (Stop (Propagated e1), w1)
    | (Interrupted, w1) \<Rightarrow> (Stop (Propagated KeyboardInterrupt), w1)
    | (Done, w1) \<Rightarrow> (case perform (Sleep backoff) w1 of
          (Pending, w2) \<Rightarrow> (Stop Running, w2)
        | (Raised e2, w2) \<Rightarrow> (Stop (Propagated e2), w2)
        | (Interrupted, w2) \<Rightarrow> (Stop (Propagated KeyboardInterrupt), w2)
        | (Done, w2) \<Rightarrow> (Continue, w2)))"

fun handler :: "nat \<Rightarrow> exn \<Rightarrow> world \<Rightarrow> flow \<times> world" where
  "handler backoff KeyboardInterrupt w = handle_interrupt w"
| "handler backoff (Exception m tb) w = handle_error backoff (Exception m tb) w"

text \<open>
  One iteration of \<open>while True\<close>: the \<open>try\<close> block and its handlers. The \<open>try\<close> block is the
  two calls and the code between them: an interrupt raised in \<open>main\<close> after the sleep has
  returned is raised inside the block and is caught. After the heartbeat log call has
  returned the block is over: the next thing \<open>main\<close> does is the jump back to
  \<open>while True\<close>, which no handler covers, and an interrupt raised there leaves \<open>main\<close>.
\<close>

definition tick :: "nat \<Rightarrow> nat \<Rightarrow> world \<Rightarrow> flow \<times> world" where
  "tick interval backoff w = (case perform (Sleep interval) w of
      (Pending, w1) \<Rightarrow> (Stop Running, w1)
    | (Raised e, w1) \<Rightarrow> handler backoff e w1
    | (Interrupted, w1) \<Rightarrow> handler backoff KeyboardInterrupt w1
    | (Done, w1) \<Rightarrow> (case perform (Log INFO ''Agent heartbeat'') w1 of
          (Pending, w2) \<Rightarrow> (Stop Running, w2)
        | (Raised e, w2) \<Rightarrow> handler backoff e w2
        | (Interrupted, w2) \<Rightarrow> (Stop (Propagated KeyboardInterrupt), w2)
        | (Done, w2) \<Rightarrow> (Continue, w2)))"

lemma script_effect [simp]: "script (effect c w) = script w"
  by (cases c) simp_all

lemma calls_effect [simp]: "calls (effect c w) = calls w"
  by (cases c) simp_all

lemma perform_script_le: "perform c w = (r, w1) \<Longrightarrow> length (script w1) \<le> length (script w)"
  by (auto simp: perform_def split: list.splits outcome.splits)

lemma perform_script_less:
  "perform c w = (r, w1) \<Longrightarrow> r \<noteq> Pending \<Longrightarrow> length (script w1) < length (script w)"
  by (auto simp: perform_def split: list.splits outcome.splits)

lemma handler_script_le:
  "handler backoff e w = (f, w1) \<Longrightarrow> length (script w1) \<le> length (script w)"
  by (cases e)
     (auto simp: handle_interrupt_def handle_error_def split: prod.splits reply.splits
           dest!: perform_script_le)

lemma tick_script_less:
  "tick interval backoff w = (Continue, w1) \<Longrightarrow> length (script w1) < length (script w)"
proof -
  assume t: "tick interval backoff w = (Continue, w1)"
  obtain r w0 where p: "perform (Sleep interval) w = (r, w0)"
    by (cases "perform (Sleep interval) w")
  have h: "length (script y) < length (script w)"
    if "handler backoff e x = (Continue, y)" "length (script x) < length (script w)" for e x y
    using handler_script_le [OF that(1)] that(2) by simp
  show ?thesis
  proof (cases r)
    case Pending
    with t p show ?thesis by (simp add: tick_def)
  next
    case (Raised e)
    with t p have "handler backoff e w0 = (Continue, w1)" by (simp add: tick_def)
    moreover have "length (script w0) < length (script w)"
      using p Raised by (auto dest: perform_script_less)
    ultimately show ?thesis by (rule h)
  next
    case Interrupted
    with t p have "handler backoff KeyboardInterrupt w0 = (Continue, w1)"
      by (simp add: tick_def)
    moreover have "length (script w0) < length (script w)"
      using p Interrupted by (auto dest: perform_script_less)
    ultimately show ?thesis by (rule h)
  next
    case Done
    have less: "length (script w0) < length (script w)"
      using p Done by (auto dest: perform_script_less)
    obtain r2 w2 where p2: "perform (Log INFO ''Agent heartbeat'') w0 = (r2, w2)"
      by (cases "perform (Log INFO ''Agent heartbeat'') w0")
    have le2: "length (script w2) \<le> length (script w0)"
      using p2 by (rule perform_script_le)
    show ?thesis
    proof (cases r2)
      case Pending
      with t p p2 Done show ?thesis by (simp add: tick_def)
    next
      case (Raised e)
      with t p p2 Done have "handler backoff e w2 = (Continue, w1)" by (simp add: tick_def)
      moreover from le2 less have "length (script w2) < length (script w)" by simp
      ultimately show ?thesis by (rule h)
    next
      case Interrupted
      with t p p2 Done show ?thesis by (simp add: tick_def)
    next
      case Done2: Done
      with t p p2 Done have "w1 = w2" by (simp add: tick_def)
      with le2 less show ?thesis by simp
    qed
  qed
qed

function agent_loop :: "nat \<Rightarrow> nat \<Rightarrow> world \<Rightarrow> status \<times> world" where
  "agent_loop interval backoff w = (case tick interval backoff w of
      (Continue, w1) \<Rightarrow> agent_loop interval backoff w1
    | (Stop s, w1) \<Rightarrow> (s, w1))"
  by pat_completeness auto

termination
  by (relation "measure (\<lambda>(interval, backoff, w). length (script w))")
     (auto dest: tick_script_less [OF sym])

declare agent_loop.simps [simp del]

text \<open>
  The body of \<open>main\<close>, with the two durations as parameters; the source writes them as the
  literals of \<open>time.sleep(10)\<close> and \<open>time.sleep(5)\<close>. The two calls before the loop are
  outside the \<open>try\<close> block.
\<close>

definition main_with :: "nat \<Rightarrow> nat \<Rightarrow> world \<Rightarrow> status \<times> world" where
  "main_with interval backoff w = (case perform (Log INFO ''Agent Core started'') w of
      (Pending, w1) \<Rightarrow> (Running, w1)
    | (Raised e, w1) \<Rightarrow> (Propagated e, w1)
    | (Interrupted, w1) \<Rightarrow> (Propagated KeyboardInterrupt, w1)
    | (Done, w1) \<Rightarrow> (case perform (Print ''Agent Core started'') w1 of
          (Pending, w2) \<Rightarrow> (Running, w2)
        | (Raised e, w2) \<Rightarrow> (Propagated e, w2)
        | (Interrupted, w2) \<Rightarrow> (Propagated KeyboardInterrupt, w2)
        | (Done, w2) \<Rightarrow> agent_loop interval backoff w2))"

definition main :: "world \<Rightarrow> status \<times> world" where
  "main w = main_with 10 5 w"

subsection \<open>Describing runs\<close>

text \<open>
  A tick failure is an \<open>Exception\<close> raised inside the \<open>try\<close> block, by one of its two
  calls: by the sleep, after some seconds, or by the heartbeat log call after the sleep has
  returned. In the script of a failure the two calls of the handler (the error log call and
  the backoff sleep) return.
\<close>

datatype failure = SleepRaises nat string "string list" | LogRaises nat string "string list"

fun failure_script :: "failure \<Rightarrow> outcome list" where
  "failure_script (SleepRaises k m tb) = [Raises k (Exception m tb), Returns, Returns]"
| "failure_script (LogRaises k m tb) = [Returns, Raises k (Exception m tb), Returns, Returns]"

fun failure_message :: "failure \<Rightarrow> string" where
  "failure_message (SleepRaises k m tb) = m"
| "failure_message (LogRaises k m tb) = m"

fun failure_time :: "nat \<Rightarrow> nat \<Rightarrow> failure \<Rightarrow> nat" where
  "failure_time interval t (SleepRaises k m tb) = t + min k interval"
| "failure_time interval t (LogRaises k m tb) = t + interval"

fun failure_calls :: "nat \<Rightarrow> nat \<Rightarrow> failure \<Rightarrow> call list" where
  "failure_calls interval backoff (SleepRaises k m tb) =
     [Sleep interval, Log ERROR (''Error in agent loop: '' @ m), Sleep backoff]"
| "failure_calls interval backoff (LogRaises k m tb) =
     [Sleep interval, Log INFO ''Agent heartbeat'',
      Log ERROR (''Error in agent loop: '' @ m), Sleep backoff]"

definition error_record :: "failure \<Rightarrow> level \<times> string" where
  "error_record f = (ERROR, ''Error in agent loop: '' @ failure_message f)"

text \<open>
  One whole iteration that goes on to the next: a heartbeat, or a failure and its recovery.
\<close>

datatype beat = Beats | Fails failure

fun beat_script :: "beat \<Rightarrow> outcome list" where
  "beat_script Beats = [Returns, Returns]"
| "beat_script (Fails f) = failure_script f"

fun beat_record :: "beat \<Rightarrow> level \<times> string" where
  "beat_record Beats = (INFO, ''Agent heartbeat'')"
| "beat_record (Fails f) = error_record f"

definition run_script :: "beat list \<Rightarrow> outcome list" where
  "run_script ts = concat (map beat_script ts)"

text \<open>
  The script of the run in which every call returns and the interrupt arrives \<open>c\<close> seconds
  after the start, for sleeps of \<open>interval\<close> seconds: the two start-up calls return, the
  \<open>c div interval\<close> sleeps that end before second \<open>c\<close> return and so do their heartbeat log
  calls, the sleep in progress raises \<open>KeyboardInterrupt\<close> after \<open>c mod interval\<close> seconds,
  and the log call of the handler returns.
\<close>

definition cancel_script :: "nat \<Rightarrow> nat \<Rightarrow> outcome list" where
  "cancel_script interval c =
     [Returns, Returns] @ concat (replicate (c div interval) [Returns, Returns]) @
     [Raises (c mod interval) KeyboardInterrupt, Returns]"

text \<open>
  The outcomes that are a cancellation: each of them is a \<open>KeyboardInterrupt\<close>.
\<close>

fun cancels :: "outcome \<Rightarrow> bool" where
  "cancels Returns = False"
| "cancels (Raises k KeyboardInterrupt) = True"
| "cancels (Raises k (Exception m tb)) = False"
| "cancels Late_interrupt = True"
| "cancels Returns_then_interrupt = True"

text \<open>
  The suspensions of a trace of calls. A sleep that directly follows an error log call is
  a backoff sleep (the handler \<open>except Exception\<close> makes these two calls in a row, and
  nothing else logs at level \<open>ERROR\<close>); every other sleep is an interval sleep.
  \<open>after_error f cs\<close> tells whether the call after \<open>cs\<close> directly follows an error log call
  (\<open>f\<close> says so for the empty trace), and \<open>suspensions interval backoff f cs\<close> holds when
  each backoff sleep of \<open>cs\<close> asks for \<open>backoff\<close> seconds and each interval sleep for
  \<open>interval\<close> seconds.
\<close>

fun after_error :: "bool \<Rightarrow> call list \<Rightarrow> bool" where
  "after_error f [] = f"
| "after_error f (Sleep d # cs) = after_error False cs"
| "after_error f (Log l m # cs) = after_error (l = ERROR) cs"
| "after_error f (Print m # cs) = after_error False cs"

fun suspensions :: "nat \<Rightarrow> nat \<Rightarrow> bool \<Rightarrow> call list \<Rightarrow> bool" where
  "suspensions interval backoff f [] = True"
| "suspensions interval backoff f (Sleep d # cs) =
     (d = (if f then backoff else interval) \<and> suspensions interval backoff False cs)"
| "suspensions interval backoff f (Log l m # cs) = suspensions interval backoff (l = ERROR) cs"
| "suspensions interval backoff f (Print m # cs) = suspensions interval backoff False cs"

subsection \<open>Running the model\<close>

lemma perform_Nil: "script w = [] \<Longrightarrow> perform c w = (Pending, w)"
  by (simp add: perform_def)

lemma perform_Returns:
  "script w = Returns # rest \<Longrightarrow>
   perform c w = (Done, effect c (w\<lparr>script := rest, calls := calls w @ [c]\<rparr>))"
  by (simp add: perform_def)

lemma perform_Raises:
  "script w = Raises k e # rest \<Longrightarrow>
   perform c w = (Raised e, w\<lparr>script := rest, calls := calls w @ [c],
                               clock := clock w + min k (duration c)\<rparr>)"
  by (simp add: perform_def)

lemma agent_loop_Continue:
  "tick i b w = (Continue, w1) \<Longrightarrow> agent_loop i b w = agent_loop i b w1"
  by (subst agent_loop.simps) simp

lemma agent_loop_Stop: "tick i b w = (Stop s, w1) \<Longrightarrow> agent_loop i b w = (s, w1)"
  by (subst agent_loop.simps) simp

lemma agent_loop_Nil: "script w = [] \<Longrightarrow> agent_loop i b w = (Running, w)"
  by (rule agent_loop_Stop) (simp add: tick_def perform_Nil)

lemma agent_loop_if:
  "agent_loop i b w =
    (if fst (tick i b w) = Continue then agent_loop i b (snd (tick i b w))
     else (case fst (tick i b w) of Stop s \<Rightarrow> (s, snd (tick i b w))))"
  by (subst agent_loop.simps) (auto split: prod.splits flow.splits)


lemma tick_failure:
  "tick i b (w\<lparr>script := failure_script f @ rest\<rparr>) =
    (Continue, w\<lparr>script := rest,
                  clock := failure_time i (clock w) f + b,
                  events := events w @
                    [(failure_time i (clock w) f, ERROR,
                      ''Error in agent loop: '' @ failure_message f)],
                  calls := calls w @ failure_calls i b f\<rparr>)"
  by (cases f) (simp_all add: tick_def perform_def handle_error_def)

lemma tick_beats:
  "tick i b (w\<lparr>script := Returns # Returns # rest\<rparr>) =
    (Continue, w\<lparr>script := rest, clock := clock w + i,
                  events := events w @ [(clock w + i, INFO, ''Agent heartbeat'')],
                  calls := calls w @ [Sleep i, Log INFO ''Agent heartbeat'']\<rparr>)"
  by (simp add: tick_def perform_def)

lemma tick_interrupt:
  "tick i b (w\<lparr>script := Raises k KeyboardInterrupt # Returns # rest\<rparr>) =
    (Stop Returned, w\<lparr>script := rest, clock := clock w + min k i,
                  events := events w @ [(clock w + min k i, INFO, ''Agent stopping'')],
                  calls := calls w @ [Sleep i, Log INFO ''Agent stopping'']\<rparr>)"
  by (simp add: tick_def perform_def handle_interrupt_def)

lemma tick_beat:
  "\<exists>w'. tick i b (w\<lparr>script := beat_script t @ rest\<rparr>) = (Continue, w') \<and>
        script w' = rest \<and>
        map snd (events w') = map snd (events w) @ [beat_record t]"
  by (cases t) (simp_all add: tick_beats tick_failure error_record_def)

lemma loop_run:
  "\<exists>w'. agent_loop i b (w\<lparr>script := run_script ts @ rest\<rparr>) = agent_loop i b w' \<and>
        script w' = rest \<and>
        map snd (events w') = map snd (events w) @ map beat_record ts"
proof (induction ts arbitrary: w)
  case Nil
  show ?case
    by (rule exI [of _ "w\<lparr>script := rest\<rparr>"]) (simp add: run_script_def)
next
  case (Cons t ts)
  obtain w1 where t1: "tick i b (w\<lparr>script := beat_script t @ run_script ts @ rest\<rparr>) = (Continue, w1)"
    and s1: "script w1 = run_script ts @ rest"
    and e1: "map snd (events w1) = map snd (events w) @ [beat_record t]"
    using tick_beat [where i = i and b = b and w = w and t = t and rest = "run_script ts @ rest"] by blast
  from s1 have w1: "w1\<lparr>script := run_script ts @ rest\<rparr> = w1" by simp
  obtain w2 where l2: "agent_loop i b (w1\<lparr>script := run_script ts @ rest\<rparr>) = agent_loop i b w2"
    and s2: "script w2 = rest"
    and e2: "map snd (events w2) = map snd (events w1) @ map beat_record ts"
    using Cons.IH [where w = w1] by blast
  have "agent_loop i b (w\<lparr>script := run_script (t # ts) @ rest\<rparr>) = agent_loop i b w1"
    using t1 by (simp add: run_script_def agent_loop_Continue)
  also have "\<dots> = agent_loop i b w2" using l2 w1 by simp
  finally show ?case using s2 e1 e2 by auto
qed

lemmas run_defs = main_def main_with_def start_world_def agent_loop_if tick_def perform_def
  handle_interrupt_def handle_error_def




subsection \<open>What a run has used of its script, and the calls it has made\<close>

lemma perform_subset: "perform c w = (r, w1) \<Longrightarrow> set (script w1) \<subseteq> set (script w)"
  by (auto simp: perform_def split: list.splits outcome.splits)

lemma perform_cancelled:
  "perform c w = (r, w1) \<Longrightarrow> r = Raised KeyboardInterrupt \<or> r = Interrupted \<Longrightarrow>
   \<exists>x \<in> set (script w). cancels x"
  by (auto simp: perform_def split: list.splits outcome.splits)

lemma handler_subset: "handler b e w = (fl, w1) \<Longrightarrow> set (script w1) \<subseteq> set (script w)"
  by (cases e)
     (auto simp: handle_interrupt_def handle_error_def split: prod.splits reply.splits
           dest!: perform_subset)

lemma handler_Returned: "handler b e w = (Stop Returned, w1) \<Longrightarrow> e = KeyboardInterrupt"
  by (cases e) (auto simp: handle_error_def split: prod.splits reply.splits)

lemma tick_cases:
  assumes "tick i b w = (fl, w1)"
  obtains (sleep_pending) "perform (Sleep i) w = (Pending, w1)" "fl = Stop Running"
  | (sleep_raised) e w0 where "perform (Sleep i) w = (Raised e, w0)" "handler b e w0 = (fl, w1)"
  | (sleep_interrupted) w0 where "perform (Sleep i) w = (Interrupted, w0)"
      "handler b KeyboardInterrupt w0 = (fl, w1)"
  | (log_pending) w0 where "perform (Sleep i) w = (Done, w0)"
      "perform (Log INFO ''Agent heartbeat'') w0 = (Pending, w1)" "fl = Stop Running"
  | (log_raised) e w0 w2 where "perform (Sleep i) w = (Done, w0)"
      "perform (Log INFO ''Agent heartbeat'') w0 = (Raised e, w2)" "handler b e w2 = (fl, w1)"
  | (log_interrupted) w0 where "perform (Sleep i) w = (Done, w0)"
      "perform (Log INFO ''Agent heartbeat'') w0 = (Interrupted, w1)"
      "fl = Stop (Propagated KeyboardInterrupt)"
  | (beat) w0 where "perform (Sleep i) w = (Done, w0)"
      "perform (Log INFO ''Agent heartbeat'') w0 = (Done, w1)" "fl = Continue"
  using assms unfolding tick_def
  by (auto split: prod.splits reply.splits)

lemma tick_subset:
  assumes "tick i b w = (fl, w1)"
  shows "set (script w1) \<subseteq> set (script w)"
  using assms
proof (cases rule: tick_cases)
  case sleep_pending
  from perform_subset [OF sleep_pending(1)] show ?thesis .
next
  case (sleep_raised e w0)
  from handler_subset [OF sleep_raised(2)] perform_subset [OF sleep_raised(1)]
  show ?thesis by blast
next
  case (sleep_interrupted w0)
  from handler_subset [OF sleep_interrupted(2)] perform_subset [OF sleep_interrupted(1)]
  show ?thesis by blast
next
  case (log_pending w0)
  from perform_subset [OF log_pending(2)] perform_subset [OF log_pending(1)]
  show ?thesis by blast
next
  case (log_raised e w0 w2)
  from handler_subset [OF log_raised(3)] perform_subset [OF log_raised(2)]
    perform_subset [OF log_raised(1)]
  show ?thesis by blast
next
  case (log_interrupted w0)
  from perform_subset [OF log_interrupted(2)] perform_subset [OF log_interrupted(1)]
  show ?thesis by blast
next
  case (beat w0)
  from perform_subset [OF beat(2)] perform_subset [OF beat(1)]
  show ?thesis by blast
qed

lemma tick_Returned:
  assumes "tick i b w = (Stop Returned, w1)"
  shows "\<exists>x \<in> set (script w). cancels x"
  using assms
proof (cases rule: tick_cases)
  case (sleep_raised e w0)
  from handler_Returned [OF sleep_raised(2)] sleep_raised(1)
  show ?thesis by (auto dest: perform_cancelled)
next
  case (sleep_interrupted w0)
  from sleep_interrupted(1) show ?thesis by (auto dest: perform_cancelled)
next
  case (log_raised e w0 w2)
  from handler_Returned [OF log_raised(3)] log_raised(2)
  have "\<exists>x \<in> set (script w0). cancels x" by (auto dest: perform_cancelled)
  with perform_subset [OF log_raised(1)] show ?thesis by blast
qed simp_all

lemma loop_Returned:
  "fst (agent_loop i b w) = Returned \<Longrightarrow> \<exists>x \<in> set (script w). cancels x"
proof (induction i b w rule: agent_loop.induct)
  case (1 i b w)
  obtain fl w1 where t: "tick i b w = (fl, w1)" by (cases "tick i b w")
  show ?case
  proof (cases fl)
    case Continue
    with t have l: "agent_loop i b w = agent_loop i b w1" by (simp add: agent_loop_Continue)
    with 1 (2) have "fst (agent_loop i b w1) = Returned" by simp
    from 1 (1) [OF t [symmetric] Continue this] tick_subset [OF t] show ?thesis by blast
  next
    case (Stop s)
    with t have "agent_loop i b w = (s, w1)" by (simp add: agent_loop_Stop)
    with 1 (2) Stop t have "tick i b w = (Stop Returned, w1)" by simp
    then show ?thesis by (rule tick_Returned)
  qed
qed

lemma after_error_append: "after_error f (xs @ ys) = after_error (after_error f xs) ys"
  by (induction f xs rule: after_error.induct) simp_all

lemma suspensions_append:
  "suspensions i b f (xs @ ys) =
     (suspensions i b f xs \<and> suspensions i b (after_error f xs) ys)"
  by (induction i b f xs rule: suspensions.induct) simp_all

lemma perform_calls:
  "perform c w = (r, w1) \<Longrightarrow>
     (r = Pending \<and> calls w1 = calls w) \<or> (r \<noteq> Pending \<and> calls w1 = calls w @ [c])"
  by (auto simp: perform_def split: list.splits outcome.splits)

lemma handler_calls:
  assumes "handler b e w = (fl, w1)"
  shows "\<exists>cs. calls w1 = calls w @ cs \<and> suspensions i b False cs \<and>
           (fl = Continue \<longrightarrow> \<not> after_error False cs)"
proof (cases e)
  case KeyboardInterrupt
  with assms show ?thesis
    by (auto simp: handle_interrupt_def split: prod.splits reply.splits dest!: perform_calls)
next
  case (Exception m tb)
  with assms have h: "handle_error b e w = (fl, w1)" by simp
  obtain r w2 where p: "perform (Log ERROR (''Error in agent loop: '' @ str e)) w = (r, w2)"
    by (cases "perform (Log ERROR (''Error in agent loop: '' @ str e)) w")
  show ?thesis
  proof (cases r)
    case Pending
    with h p perform_calls [OF p] show ?thesis by (auto simp: handle_error_def)
  next
    case (Raised x)
    with h p perform_calls [OF p] have "calls w1 = calls w @ [Log ERROR (''Error in agent loop: '' @ str e)]"
      and "fl \<noteq> Continue" by (auto simp: handle_error_def)
    then show ?thesis by simp
  next
    case Interrupted
    with h p perform_calls [OF p] have "calls w1 = calls w @ [Log ERROR (''Error in agent loop: '' @ str e)]"
      and "fl \<noteq> Continue" by (auto simp: handle_error_def)
    then show ?thesis by simp
  next
    case Done
    with perform_calls [OF p]
    have c2: "calls w2 = calls w @ [Log ERROR (''Error in agent loop: '' @ str e)]" by simp
    obtain r3 w3 where p3: "perform (Sleep b) w2 = (r3, w3)" by (cases "perform (Sleep b) w2")
    from h p Done p3 have w3: "w1 = w3" and fl: "fl = Continue \<longrightarrow> r3 = Done"
      by (auto simp: handle_error_def split: reply.splits)
    from perform_calls [OF p3] show ?thesis
    proof
      assume "r3 = Pending \<and> calls w3 = calls w2"
      with c2 w3 fl show ?thesis by simp
    next
      assume "r3 \<noteq> Pending \<and> calls w3 = calls w2 @ [Sleep b]"
      with c2 w3 have "calls w1 = calls w @ [Log ERROR (''Error in agent loop: '' @ str e), Sleep b]"
        by simp
      then show ?thesis by simp
    qed
  qed
qed

lemma tick_calls:
  assumes "tick i b w = (fl, w1)"
  shows "\<exists>cs. calls w1 = calls w @ cs \<and> suspensions i b False cs \<and>
           (fl = Continue \<longrightarrow> \<not> after_error False cs)"
  using assms
proof (cases rule: tick_cases)
  case sleep_pending
  from perform_calls [OF sleep_pending(1)] sleep_pending(2) show ?thesis by simp
next
  case (sleep_raised e w0)
  from perform_calls [OF sleep_raised(1)] have c0: "calls w0 = calls w @ [Sleep i]" by simp
  from handler_calls [OF sleep_raised(2), where i = i] obtain cs
    where "calls w1 = calls w0 @ cs" "suspensions i b False cs"
      "fl = Continue \<longrightarrow> \<not> after_error False cs" by blast
  with c0 have "calls w1 = calls w @ (Sleep i # cs)" "suspensions i b False (Sleep i # cs)"
    "fl = Continue \<longrightarrow> \<not> after_error False (Sleep i # cs)" by simp_all
  then show ?thesis by blast
next
  case (sleep_interrupted w0)
  from perform_calls [OF sleep_interrupted(1)] have c0: "calls w0 = calls w @ [Sleep i]"
    by simp
  from handler_calls [OF sleep_interrupted(2), where i = i] obtain cs
    where "calls w1 = calls w0 @ cs" "suspensions i b False cs"
      "fl = Continue \<longrightarrow> \<not> after_error False cs" by blast
  with c0 have "calls w1 = calls w @ (Sleep i # cs)" "suspensions i b False (Sleep i # cs)"
    "fl = Continue \<longrightarrow> \<not> after_error False (Sleep i # cs)" by simp_all
  then show ?thesis by blast
next
  case (log_pending w0)
  from perform_calls [OF log_pending(1)] perform_calls [OF log_pending(2)]
  have "calls w1 = calls w @ [Sleep i]" by simp
  with log_pending(3) show ?thesis by simp
next
  case (log_raised e w0 w2)
  from perform_calls [OF log_raised(1)] have c0: "calls w0 = calls w @ [Sleep i]" by simp
  from perform_calls [OF log_raised(2)]
  have c2: "calls w2 = calls w0 @ [Log INFO ''Agent heartbeat'']" by simp
  from handler_calls [OF log_raised(3), where i = i] obtain cs
    where "calls w1 = calls w2 @ cs" "suspensions i b False cs"
      "fl = Continue \<longrightarrow> \<not> after_error False cs" by blast
  with c0 c2 have "calls w1 = calls w @ (Sleep i # Log INFO ''Agent heartbeat'' # cs)"
    "suspensions i b False (Sleep i # Log INFO ''Agent heartbeat'' # cs)"
    "fl = Continue \<longrightarrow> \<not> after_error False (Sleep i # Log INFO ''Agent heartbeat'' # cs)"
    by simp_all
  then show ?thesis by blast
next
  case (log_interrupted w0)
  from perform_calls [OF log_interrupted(1)] perform_calls [OF log_interrupted(2)]
  have "calls w1 = calls w @ [Sleep i, Log INFO ''Agent heartbeat'']" by simp
  with log_interrupted(3) show ?thesis by simp
next
  case (beat w0)
  from perform_calls [OF beat(1)] have c0: "calls w0 = calls w @ [Sleep i]" by simp
  from perform_calls [OF beat(2)]
  have "calls w1 = calls w0 @ [Log INFO ''Agent heartbeat'']" by simp
  with c0 have "calls w1 = calls w @ [Sleep i, Log INFO ''Agent heartbeat'']" by simp
  then show ?thesis by simp
qed

lemma loop_calls:
  "suspensions i b False (calls w) \<Longrightarrow> \<not> after_error False (calls w) \<Longrightarrow>
   suspensions i b False (calls (snd (agent_loop i b w)))"
proof (induction i b w rule: agent_loop.induct)
  case (1 i b w)
  obtain fl w1 where t: "tick i b w = (fl, w1)" by (cases "tick i b w")
  from tick_calls [OF t] obtain cs where cs: "calls w1 = calls w @ cs"
    "suspensions i b False cs" "fl = Continue \<longrightarrow> \<not> after_error False cs" by blast
  from cs(1,2) 1(2,3) have s1: "suspensions i b False (calls w1)"
    by (simp add: suspensions_append)
  show ?case
  proof (cases fl)
    case Continue
    with cs(1,3) 1(3) have a1: "\<not> after_error False (calls w1)"
      by (simp add: after_error_append)
    from t Continue have "agent_loop i b w = agent_loop i b w1"
      by (simp add: agent_loop_Continue)
    with 1(1) [OF t [symmetric] Continue s1 a1] show ?thesis by simp
  next
    case (Stop s)
    with t have "agent_loop i b w = (s, w1)" by (simp add: agent_loop_Stop)
    with s1 show ?thesis by simp
  qed
qed

lemma main_with_started:
  "main_with i b (start_world (Returns # Returns # rest)) =
     agent_loop i b \<lparr>clock = 0, script = rest, events = [(0, INFO, ''Agent Core started'')],
       calls = [Log INFO ''Agent Core started'', Print ''Agent Core started'']\<rparr>"
  by (simp add: main_with_def start_world_def perform_def)

lemma main_with_cases:
  obtains (pending) "fst (main_with i b (start_world os)) = Running"
    "calls (snd (main_with i b (start_world os))) = [] \<or>
     calls (snd (main_with i b (start_world os))) = [Log INFO ''Agent Core started'']"
  | (left) e where "fst (main_with i b (start_world os)) = Propagated e"
    "calls (snd (main_with i b (start_world os))) = [Log INFO ''Agent Core started''] \<or>
     calls (snd (main_with i b (start_world os))) =
       [Log INFO ''Agent Core started'', Print ''Agent Core started'']"
  | (started) rest where "os = Returns # Returns # rest"
proof (cases os)
  case Nil
  then show ?thesis by (intro pending) (simp_all add: main_with_def start_world_def perform_def)
next
  case (Cons o1 os1)
  show ?thesis
  proof (cases o1)
    case (Raises k e)
    with Cons show ?thesis
      by (intro left [of e]) (simp_all add: main_with_def start_world_def perform_def)
  next
    case Late_interrupt
    with Cons show ?thesis
      by (intro left [of KeyboardInterrupt])
         (simp_all add: main_with_def start_world_def perform_def)
  next
    case Returns_then_interrupt
    with Cons show ?thesis
      by (intro left [of KeyboardInterrupt])
         (simp_all add: main_with_def start_world_def perform_def)
  next
    case Returns
    show ?thesis
    proof (cases os1)
      case Nil
      with Cons Returns show ?thesis
        by (intro pending) (simp_all add: main_with_def start_world_def perform_def)
    next
      case Cons2: (Cons o2 os2)
      show ?thesis
      proof (cases o2)
        case Returns2: Returns
        with Cons Returns Cons2 show ?thesis by (intro started [of os2]) simp
      next
        case (Raises k e)
        with Cons Returns Cons2 show ?thesis
          by (intro left [of e]) (simp_all add: main_with_def start_world_def perform_def)
      next
        case Late_interrupt
        with Cons Returns Cons2 show ?thesis
          by (intro left [of KeyboardInterrupt])
             (simp_all add: main_with_def start_world_def perform_def)
      next
        case Returns_then_interrupt
        with Cons Returns Cons2 show ?thesis
          by (intro left [of KeyboardInterrupt])
             (simp_all add: main_with_def start_world_def perform_def)
      qed
    qed
  qed
qed

lemma suspensions_rejects:
  "\<not> suspensions 10 5 False [Sleep 10, Log ERROR m, Sleep 10] \<and>
   \<not> suspensions 10 5 False [Sleep 10, Log INFO m, Sleep 5]"
  by simp

subsection \<open>Tick failures\<close>

text \<open>
  Claim C1. From any state of the loop, a run in which \<open>N\<close> consecutive ticks fail with an
  \<open>Exception\<close> (in the sleep or in the heartbeat log call), the handler's own calls
  returning, catches every one of them: it appends exactly \<open>N\<close> records to the log, all at
  level \<open>ERROR\<close>, one per failure and in order, each with the message of its failure; the loop
  then goes on with whatever the environment does next, and at the end of the script it is
  still running: it has neither returned nor let an exception out.
\<close>

theorem tick_failures_logged_loop_running:
  "(\<exists>w'. agent_loop i b (w\<lparr>script := run_script (map Fails fs) @ rest\<rparr>) = agent_loop i b w' \<and>
         script w' = rest \<and>
         map snd (events w') = map snd (events w) @ map error_record fs) \<and>
   fst (agent_loop i b (w\<lparr>script := run_script (map Fails fs)\<rparr>)) = Running \<and>
   map snd (events (snd (agent_loop i b (w\<lparr>script := run_script (map Fails fs)\<rparr>)))) =
     map snd (events w) @ map error_record fs"
proof -
  have ev: "map beat_record (map Fails fs) = map error_record fs" by simp
  have a: "\<exists>w'. agent_loop i b (w\<lparr>script := run_script (map Fails fs) @ rest\<rparr>) = agent_loop i b w' \<and>
         script w' = rest \<and>
         map snd (events w') = map snd (events w) @ map error_record fs" for rest
    using loop_run [where i = i and b = b and w = w and ts = "map Fails fs" and rest = rest] unfolding ev .
  obtain w' where l: "agent_loop i b (w\<lparr>script := run_script (map Fails fs) @ []\<rparr>) = agent_loop i b w'"
    and s: "script w' = []"
    and e: "map snd (events w') = map snd (events w) @ map error_record fs"
    using a [of "[]"] by blast
  have "agent_loop i b (w\<lparr>script := run_script (map Fails fs)\<rparr>) = (Running, w')"
    using l s by (simp add: agent_loop_Nil)
  with a [of rest] e show ?thesis by simp
qed

text \<open>
  Claim C8. For every \<open>Exception\<close> raised in the \<open>try\<close> block, the iteration writes one
  record at level \<open>ERROR\<close> whose text is the fixed prefix followed by the message of the
  exception, \<open>str(e)\<close>, and nothing else: two exceptions with the same message and different
  tracebacks leave the same log. After the record the loop sleeps for the backoff (the
  clock stands at the time of the record plus the backoff, and the last call of the
  iteration is \<open>Sleep backoff\<close>) and goes on with the next iteration.
\<close>

theorem tick_error_logged_message_only:
  "tick i b (w\<lparr>script := failure_script f @ rest\<rparr>) =
    (Continue, w\<lparr>script := rest,
                  clock := failure_time i (clock w) f + b,
                  events := events w @
                    [(failure_time i (clock w) f, ERROR,
                      ''Error in agent loop: '' @ failure_message f)],
                  calls := calls w @ failure_calls i b f\<rparr>) \<and>
   agent_loop i b (w\<lparr>script := failure_script f @ rest\<rparr>) =
     agent_loop i b (w\<lparr>script := rest,
                  clock := failure_time i (clock w) f + b,
                  events := events w @
                    [(failure_time i (clock w) f, ERROR,
                      ''Error in agent loop: '' @ failure_message f)],
                  calls := calls w @ failure_calls i b f\<rparr>) \<and>
   events (snd (tick i b (w\<lparr>script := failure_script (SleepRaises k m tb) @ rest\<rparr>))) =
   events (snd (tick i b (w\<lparr>script := failure_script (SleepRaises k m tb') @ rest\<rparr>))) \<and>
   events (snd (tick i b (w\<lparr>script := failure_script (LogRaises k m tb) @ rest\<rparr>))) =
   events (snd (tick i b (w\<lparr>script := failure_script (LogRaises k m tb') @ rest\<rparr>)))"
proof -
  note t = tick_failure [where i = i and b = b and w = w and rest = rest]
  have "agent_loop i b (w\<lparr>script := failure_script f @ rest\<rparr>) =
     agent_loop i b (w\<lparr>script := rest,
                  clock := failure_time i (clock w) f + b,
                  events := events w @
                    [(failure_time i (clock w) f, ERROR,
                      ''Error in agent loop: '' @ failure_message f)],
                  calls := calls w @ failure_calls i b f\<rparr>)"
    by (rule agent_loop_Continue) (rule t)
  then show ?thesis
    by (simp only: t snd_conv) simp
qed

subsection \<open>Cancellation\<close>

text \<open>
  Claim C3. From any state of the loop, a \<open>KeyboardInterrupt\<close> raised by the interval sleep
  is caught: the loop writes the record \<open>Agent stopping\<close> at level \<open>INFO\<close>, at the time of the
  interrupt, and \<open>main\<close> returns; no record at level \<open>ERROR\<close> is written and no further call
  is made.
\<close>

theorem interrupt_in_interval_sleep_stops:
  "agent_loop i b (w\<lparr>script := Raises k KeyboardInterrupt # Returns # rest\<rparr>) =
    (Returned, w\<lparr>script := rest, clock := clock w + min k i,
                  events := events w @ [(clock w + min k i, INFO, ''Agent stopping'')],
                  calls := calls w @ [Sleep i, Log INFO ''Agent stopping'']\<rparr>)"
  by (rule agent_loop_Stop) (rule tick_interrupt)

text \<open>
  A run that is cancelled after its first sleep has returned. Where the interrupt comes out
  of a call of the \<open>try\<close> block, the heartbeat log call (before or after the record is
  written) or the second sleep, the handler logs the stopping record and \<open>main\<close> returns.
\<close>

lemma cancel_inside_call_events:
  "main_with i b (start_world [Returns, Returns, Returns, Raises k KeyboardInterrupt, Returns]) =
    (Returned, \<lparr>clock = i, script = [],
       events = [(0, INFO, ''Agent Core started''), (i, INFO, ''Agent stopping'')],
       calls = [Log INFO ''Agent Core started'', Print ''Agent Core started'', Sleep i,
                Log INFO ''Agent heartbeat'', Log INFO ''Agent stopping'']\<rparr>) \<and>
   main_with i b (start_world [Returns, Returns, Returns, Late_interrupt, Returns]) =
    (Returned, \<lparr>clock = i, script = [],
       events = [(0, INFO, ''Agent Core started''), (i, INFO, ''Agent heartbeat''),
                 (i, INFO, ''Agent stopping'')],
       calls = [Log INFO ''Agent Core started'', Print ''Agent Core started'', Sleep i,
                Log INFO ''Agent heartbeat'', Log INFO ''Agent stopping'']\<rparr>) \<and>
   main_with i b
     (start_world [Returns, Returns, Returns, Returns, Raises k KeyboardInterrupt, Returns]) =
    (Returned, \<lparr>clock = i + min k i, script = [],
       events = [(0, INFO, ''Agent Core started''), (i, INFO, ''Agent heartbeat''),
                 (i + min k i, INFO, ''Agent stopping'')],
       calls = [Log INFO ''Agent Core started'', Print ''Agent Core started'', Sleep i,
                Log INFO ''Agent heartbeat'', Sleep i, Log INFO ''Agent stopping'']\<rparr>)"
  by (simp add: run_defs)

text \<open>
  Claim C2. The claim asks for exactly one stopping record in every run that is cancelled
  after the first sleep has returned. In the run below the first sleep and the heartbeat
  log call return and the interrupt is raised in \<open>main\<close> itself, at the jump back to
  \<open>while True\<close>, which is outside the \<open>try\<close> block: \<open>main\<close> is left by the
  \<open>KeyboardInterrupt\<close> with the records started and heartbeat, and the stopping record is
  never written (the outcome left in the script is never asked for).
\<close>

theorem interrupt_after_heartbeat_propagates:
  "main (start_world [Returns, Returns, Returns, Returns_then_interrupt, Returns]) =
    (Propagated KeyboardInterrupt, \<lparr>clock = 10, script = [Returns],
       events = [(0, INFO, ''Agent Core started''), (10, INFO, ''Agent heartbeat'')],
       calls = [Log INFO ''Agent Core started'', Print ''Agent Core started'', Sleep 10,
                Log INFO ''Agent heartbeat'']\<rparr>)"
  by (simp add: run_defs)

text \<open>
  Claim C4. The backoff sleep is a call of the handler \<open>except Exception\<close>, outside the \<open>try\<close>
  block: a \<open>KeyboardInterrupt\<close> raised by it is caught by nobody. In the run below the first
  tick fails after three seconds and the interrupt arrives two seconds into the backoff
  sleep: \<open>main\<close> is left by the \<open>KeyboardInterrupt\<close>, the record \<open>Agent stopping\<close> is never
  written and the outcome that is left in the script is never asked for.
\<close>

theorem interrupt_in_backoff_sleep_propagates:
  "main (start_world [Returns, Returns, Raises 3 (Exception ''boom'' []), Returns,
                      Raises 2 KeyboardInterrupt, Returns]) =
    (Propagated KeyboardInterrupt, \<lparr>clock = 5, script = [Returns],
       events = [(0, INFO, ''Agent Core started''), (3, ERROR, ''Error in agent loop: boom'')],
       calls = [Log INFO ''Agent Core started'', Print ''Agent Core started'', Sleep 10,
                Log ERROR ''Error in agent loop: boom'', Sleep 5]\<rparr>)"
  by (simp add: run_defs)

text \<open>
  Claim C7. With the durations of the source, ten and five seconds, every call returning
  and the interrupt arriving 25 seconds after the start, the log holds exactly: started at
  0, heartbeat at 10, heartbeat at 20, stopping at 25.
\<close>

theorem scenario_cancel_at_25:
  "main (start_world (cancel_script 10 25)) =
    (Returned, \<lparr>clock = 25, script = [],
       events = [(0, INFO, ''Agent Core started''), (10, INFO, ''Agent heartbeat''),
                 (20, INFO, ''Agent heartbeat''), (25, INFO, ''Agent stopping'')],
       calls = [Log INFO ''Agent Core started'', Print ''Agent Core started'',
                Sleep 10, Log INFO ''Agent heartbeat'', Sleep 10, Log INFO ''Agent heartbeat'',
                Sleep 10, Log INFO ''Agent stopping'']\<rparr>)"
  by code_simp

subsection \<open>The records of one iteration\<close>



subsection \<open>Leaving the loop\<close>

text \<open>
  Claim C6. \<open>main\<close> returns only when it has been cancelled: in every run that has returned,
  a \<open>KeyboardInterrupt\<close> has been raised. Without cancellation the loop repeats for ever:
  after any number of ticks, each a heartbeat or a failure that the handler has recovered
  from, the run is still running, and it has written one record for each tick after the
  start record.
\<close>

theorem returns_only_when_cancelled:
  "(fst (main_with i b (start_world os)) = Returned \<longrightarrow> (\<exists>x \<in> set os. cancels x)) \<and>
   fst (main_with i b (start_world (Returns # Returns # run_script ts))) = Running \<and>
   map snd (events (snd (main_with i b (start_world (Returns # Returns # run_script ts))))) =
     (INFO, ''Agent Core started'') # map beat_record ts"
proof -
  have a: "fst (main_with i b (start_world os)) = Returned \<longrightarrow> (\<exists>x \<in> set os. cancels x)"
  proof (cases rule: main_with_cases [where os = os and i = i and b = b])
    case pending
    then show ?thesis by simp
  next
    case (left e)
    then show ?thesis by simp
  next
    case (started rest)
    show ?thesis
    proof
      assume "fst (main_with i b (start_world os)) = Returned"
      with started have "fst (agent_loop i b
          \<lparr>clock = 0, script = rest, events = [(0, INFO, ''Agent Core started'')],
           calls = [Log INFO ''Agent Core started'', Print ''Agent Core started'']\<rparr>) =
          Returned" by (simp add: main_with_started)
      from loop_Returned [OF this] started
      show "\<exists>x \<in> set os. cancels x" by auto
    qed
  qed
  define w0 where "w0 = \<lparr>clock = 0, script = [], events = [(0, INFO, ''Agent Core started'')],
       calls = [Log INFO ''Agent Core started'', Print ''Agent Core started'']\<rparr>"
  have m: "main_with i b (start_world (Returns # Returns # run_script ts)) =
      agent_loop i b (w0\<lparr>script := run_script ts @ []\<rparr>)"
    by (simp add: main_with_started w0_def)
  obtain w' where l: "agent_loop i b (w0\<lparr>script := run_script ts @ []\<rparr>) = agent_loop i b w'"
    and s: "script w' = []"
    and e: "map snd (events w') = map snd (events w0) @ map beat_record ts"
    using loop_run [where i = i and b = b and w = w0 and ts = ts and rest = "[]"] by blast
  from s have "agent_loop i b w' = (Running, w')" by (rule agent_loop_Nil)
  with m l have "main_with i b (start_world (Returns # Returns # run_script ts)) = (Running, w')"
    by simp
  with e a show ?thesis by (simp add: w0_def)
qed

theorem returns_only_when_cancelled_witness:
  "fst (main (start_world [Returns, Returns, Raises 4 KeyboardInterrupt, Returns])) = Returned \<and>
   (\<exists>x \<in> set [Returns, Returns, Raises 4 KeyboardInterrupt, Returns]. cancels x) \<and>
   fst (main (start_world
     (Returns # Returns # run_script [Beats, Fails (SleepRaises 1 ''boom'' [])]))) = Running"
  using returns_only_when_cancelled [where i = 10 and b = 5 and ts = "[Beats, Fails (SleepRaises 1 ''boom'' [])]"
      and os = "[Returns, Returns, Raises 4 KeyboardInterrupt, Returns]"]
  by (simp add: run_defs run_script_def)

subsection \<open>The durations are fixed\<close>

text \<open>
  Claim C9. In every run, whatever the environment does, every interval sleep asks for the
  same interval and every backoff sleep for the same backoff, the ones the run started
  with: for \<open>main\<close>, ten and five seconds, on every iteration.
\<close>

theorem suspensions_fixed:
  "suspensions interval backoff False
     (calls (snd (main_with interval backoff (start_world os)))) \<and>
   suspensions 10 5 False (calls (snd (main (start_world os))))"
proof -
  have "suspensions i b False (calls (snd (main_with i b (start_world os))))" for i b
  proof (cases rule: main_with_cases [where os = os and i = i and b = b])
    case pending
    from pending(2) show ?thesis by auto
  next
    case (left e)
    from left(2) show ?thesis by auto
  next
    case (started rest)
    then show ?thesis
      by (simp only: main_with_started) (rule loop_calls; simp)
  qed
  then show ?thesis by (simp add: main_def)
qed

end
